theory Spec2Isabelle
  imports Complex_Main "HOL-Library.Multiset"
begin

section \<open>Numbers and arrays\<close>

text \<open>
  The program computes on numpy \<open>float64\<close> values. They are modelled as the real numbers
  extended by the three special values of the format: both infinities and NaN. The
  special values follow the format's rules (\<open>x / 0\<close>, \<open>log10 0\<close>, \<open>inf - inf\<close>,
  comparisons with NaN), because the program relies on them: it starts its search at
  \<open>float('-inf')\<close> and guards a quotient and a logarithm with a small constant.
  The operations of the arrays below are exact on finite values: numpy chooses the order
  of the additions of a sum over an axis, and neither their rounding nor their overflow
  is part of the model, nor is the sign of zero. The additions and the division of the
  aggregator, which Python performs one by one, are rounded (see \<open>round64\<close> below).
\<close>

datatype fval = Fin real | PInf | NInf | NaN

instantiation fval :: comm_monoid_add
begin

definition zero_fval :: fval where
  "zero_fval = Fin 0"

fun plus_fval :: "fval \<Rightarrow> fval \<Rightarrow> fval" where
  "plus_fval NaN y = NaN"
| "plus_fval x NaN = NaN"
| "plus_fval (Fin a) (Fin b) = Fin (a + b)"
| "plus_fval PInf NInf = NaN"
| "plus_fval NInf PInf = NaN"
| "plus_fval PInf y = PInf"
| "plus_fval x PInf = PInf"
| "plus_fval NInf y = NInf"
| "plus_fval x NInf = NInf"

instance
proof (standard, goal_cases)
  case (1 x y z)
  show ?case by (cases x; cases y; cases z) simp_all
next
  case (2 x y)
  show ?case by (cases x; cases y) simp_all
next
  case (3 x)
  show ?case by (cases x) (simp_all add: zero_fval_def)
qed

end

fun fneg :: "fval \<Rightarrow> fval" where
  "fneg (Fin a) = Fin (- a)"
| "fneg PInf = NInf"
| "fneg NInf = PInf"
| "fneg NaN = NaN"

definition fsub :: "fval \<Rightarrow> fval \<Rightarrow> fval" where
  "fsub x y = x + fneg y"

fun fmul :: "fval \<Rightarrow> fval \<Rightarrow> fval" where
  "fmul NaN y = NaN"
| "fmul x NaN = NaN"
| "fmul (Fin a) (Fin b) = Fin (a * b)"
| "fmul (Fin a) PInf = (if 0 < a then PInf else if a < 0 then NInf else NaN)"
| "fmul (Fin a) NInf = (if 0 < a then NInf else if a < 0 then PInf else NaN)"
| "fmul PInf (Fin b) = (if 0 < b then PInf else if b < 0 then NInf else NaN)"
| "fmul NInf (Fin b) = (if 0 < b then NInf else if b < 0 then PInf else NaN)"
| "fmul PInf PInf = PInf"
| "fmul PInf NInf = NInf"
| "fmul NInf PInf = NInf"
| "fmul NInf NInf = PInf"

text \<open>Division does not raise on a zero divisor: numpy warns and returns an infinity or NaN.\<close>

fun fdiv :: "fval \<Rightarrow> fval \<Rightarrow> fval" where
  "fdiv NaN y = NaN"
| "fdiv x NaN = NaN"
| "fdiv (Fin a) (Fin b) =
     (if b \<noteq> 0 then Fin (a / b) else if 0 < a then PInf else if a < 0 then NInf else NaN)"
| "fdiv (Fin a) PInf = Fin 0"
| "fdiv (Fin a) NInf = Fin 0"
| "fdiv PInf (Fin b) = (if 0 \<le> b then PInf else NInf)"
| "fdiv NInf (Fin b) = (if 0 \<le> b then NInf else PInf)"
| "fdiv PInf PInf = NaN"
| "fdiv PInf NInf = NaN"
| "fdiv NInf PInf = NaN"
| "fdiv NInf NInf = NaN"

text \<open>\<open>np.log10\<close>: minus infinity at zero, NaN below zero.\<close>

fun flog10 :: "fval \<Rightarrow> fval" where
  "flog10 (Fin a) = (if 0 < a then Fin (log 10 a) else if a = 0 then NInf else NaN)"
| "flog10 PInf = PInf"
| "flog10 NInf = NaN"
| "flog10 NaN = NaN"

text \<open>The comparison \<open>x > y\<close>: false as soon as one side is NaN.\<close>

fun fgt :: "fval \<Rightarrow> fval \<Rightarrow> bool" where
  "fgt (Fin a) (Fin b) = (b < a)"
| "fgt PInf (Fin b) = True"
| "fgt PInf NInf = True"
| "fgt (Fin a) NInf = True"
| "fgt x y = False"

fun is_finite :: "fval \<Rightarrow> bool" where
  "is_finite (Fin a) = True"
| "is_finite x = False"

fun fin_val :: "fval \<Rightarrow> real" where
  "fin_val (Fin a) = a"
| "fin_val x = 0"

definition np_square :: "fval \<Rightarrow> fval" where
  "np_square x = fmul x x"

datatype error =
    BroadcastError
  | IndexError
  | ZeroDivisionError
  | ValueError string
  | ReadError string

text \<open>
  An array is a list along its first axis; a 2-D array is a list of rows, a 3-D array a
  list of 2-D arrays. The arrays of the program have at least one row (a file has at
  least one channel, a batch holds one signal), which is what this representation can
  tell apart: \<open>ncols\<close> reads the length of the second axis off the first row.
\<close>

type_synonym array1 = "fval list"
type_synonym array2 = "fval list list"
type_synonym array3 = "fval list list list"

fun sequence_sum :: "(error + 'a) list \<Rightarrow> error + 'a list" where
  "sequence_sum [] = Inr []"
| "sequence_sum (x # xs) =
     (case x of Inl e \<Rightarrow> Inl e
      | Inr y \<Rightarrow> (case sequence_sum xs of Inl e \<Rightarrow> Inl e | Inr ys \<Rightarrow> Inr (y # ys)))"

text \<open>
  An elementwise operation of numpy along one axis: equal lengths pair up, an axis of
  length one is repeated, any other pair of lengths raises
  (\<open>operands could not be broadcast together\<close>).
\<close>

definition broadcast :: "('a \<Rightarrow> 'b \<Rightarrow> error + 'c) \<Rightarrow> 'a list \<Rightarrow> 'b list \<Rightarrow> error + 'c list" where
  "broadcast f xs ys =
     (if length xs = length ys then sequence_sum (map2 f xs ys)
      else if length xs = 1 then sequence_sum (map (f (hd xs)) ys)
      else if length ys = 1 then sequence_sum (map (\<lambda>x. f x (hd ys)) xs)
      else Inl BroadcastError)"

definition np_op0 :: "(fval \<Rightarrow> fval \<Rightarrow> fval) \<Rightarrow> fval \<Rightarrow> fval \<Rightarrow> error + fval" where
  "np_op0 f x y = Inr (f x y)"

definition np_op1 :: "(fval \<Rightarrow> fval \<Rightarrow> fval) \<Rightarrow> array1 \<Rightarrow> array1 \<Rightarrow> error + array1" where
  "np_op1 f = broadcast (np_op0 f)"

definition np_op2 :: "(fval \<Rightarrow> fval \<Rightarrow> fval) \<Rightarrow> array2 \<Rightarrow> array2 \<Rightarrow> error + array2" where
  "np_op2 f = broadcast (np_op1 f)"

definition np_op3 :: "(fval \<Rightarrow> fval \<Rightarrow> fval) \<Rightarrow> array3 \<Rightarrow> array3 \<Rightarrow> error + array3" where
  "np_op3 f = broadcast (np_op2 f)"

definition ncols :: "array2 \<Rightarrow> nat" where
  "ncols a = (case a of [] \<Rightarrow> 0 | r # _ \<Rightarrow> length r)"

text \<open>\<open>np.sum(x, axis=(1, 2))\<close> of a 3-D array: one sum per element of the first axis.\<close>

definition np_sum_12 :: "array3 \<Rightarrow> array1" where
  "np_sum_12 x = map (\<lambda>b. sum_list (map sum_list b)) x"

section \<open>Metric engine\<close>

definition delta :: real where
  "delta = 1 / 10 ^ 7"

definition sdr :: "array3 \<Rightarrow> array3 \<Rightarrow> error + array1" where
  "sdr references estimates =
     (let num = np_sum_12 (map (map (map np_square)) references) in
      case np_op3 fsub references estimates of
        Inl e \<Rightarrow> Inl e
      | Inr diff \<Rightarrow>
          let den = np_sum_12 (map (map (map np_square)) diff);
              num' = map (\<lambda>x. x + Fin delta) num;
              den' = map (\<lambda>x. x + Fin delta) den
          in (case np_op1 fdiv num' den' of
                Inl e \<Rightarrow> Inl e
              | Inr q \<Rightarrow> Inr (map (\<lambda>x. fmul (Fin 10) (flog10 x)) q)))"

definition get_sdr :: "array2 \<Rightarrow> array2 \<Rightarrow> error + array1" where
  "get_sdr original_signal model_signal =
     (let min_length = min (ncols original_signal) (ncols model_signal);
          original_signal_trimmed = map (take min_length) original_signal;
          model_signal_trimmed = map (take min_length) model_signal
      in sdr [original_signal_trimmed] [model_signal_trimmed])"

section \<open>Crossover filter\<close>

text \<open>
  The filter design and the filtering itself are scipy's (\<open>signal.butter\<close>,
  \<open>signal.tf2sos\<close>, \<open>signal.sosfiltfilt\<close>). They are parameters of the model, each
  free to raise.
\<close>

datatype filter_type = lowpass | highpass

record ('ba, 'sos) scipy =
  butter :: "int \<Rightarrow> real \<Rightarrow> filter_type \<Rightarrow> error + 'ba"
  tf2sos :: "'ba \<Rightarrow> error + 'sos"
  sosfiltfilt :: "'sos \<Rightarrow> array2 \<Rightarrow> error + array2"

definition lr_filter ::
  "('ba, 'sos) scipy \<Rightarrow> array2 \<Rightarrow> real \<Rightarrow> filter_type \<Rightarrow> int \<Rightarrow> int \<Rightarrow> error + array2" where
  "lr_filter sp audio cutoff ftype order sr =
     (let nyquist = 0.5 * real_of_int sr in
      if nyquist = 0 then Inl ZeroDivisionError
      else
        let normal_cutoff = cutoff / nyquist in
        case butter sp (order div 2) normal_cutoff ftype of
          Inl e \<Rightarrow> Inl e
        | Inr ba \<Rightarrow>
            (case tf2sos sp ba of
               Inl e \<Rightarrow> Inl e
             | Inr sos \<Rightarrow> sosfiltfilt sp sos audio))"

section \<open>Track evaluator\<close>

definition py_index :: "'a list \<Rightarrow> nat \<Rightarrow> error + 'a" where
  "py_index xs i = (if i < length xs then Inr (xs ! i) else Inl IndexError)"

definition np_scale :: "real \<Rightarrow> array2 \<Rightarrow> array2" where
  "np_scale w a = map (map (fmul (Fin w))) a"

definition np_div_scalar :: "array2 \<Rightarrow> real \<Rightarrow> array2" where
  "np_div_scalar a s = map (map (\<lambda>x. fdiv x (Fin s))) a"

definition np_mul_scalar :: "array2 \<Rightarrow> real \<Rightarrow> array2" where
  "np_mul_scalar a g = map (map (\<lambda>x. fmul x (Fin g))) a"

definition weights_sum :: "real \<Rightarrow> real \<Rightarrow> real" where
  "weights_sum first_val second_val = first_val + second_val"

definition gain :: real where
  "gain = 101055 / 100000"

text \<open>The body of the loop over the weight pairs, up to \<open>summ_vocals\<close>.\<close>

definition candidate ::
  "('ba, 'sos) scipy \<Rightarrow> real \<Rightarrow> real \<Rightarrow> array2 list \<Rightarrow> int \<Rightarrow> error + array2" where
  "candidate sp first_val second_val model_signals sr1 =
     (case py_index model_signals 0 of
        Inl e \<Rightarrow> Inl e
      | Inr a \<Rightarrow>
     (case py_index model_signals 1 of
        Inl e \<Rightarrow> Inl e
      | Inr b \<Rightarrow>
     (case np_op2 (+) (np_scale first_val a) (np_scale second_val b) of
        Inl e \<Rightarrow> Inl e
      | Inr s \<Rightarrow>
     (case lr_filter sp (np_div_scalar s (weights_sum first_val second_val))
             10000 lowpass 6 sr1 of
        Inl e \<Rightarrow> Inl e
      | Inr low \<Rightarrow>
          let vocals_low = np_mul_scalar low gain in
     (case lr_filter sp b 10000 highpass 6 sr1 of
        Inl e \<Rightarrow> Inl e
      | Inr vocals_high \<Rightarrow> np_op2 (+) vocals_low vocals_high)))))"

fun evaluate_weights ::
  "('ba, 'sos) scipy \<Rightarrow> array2 \<Rightarrow> array2 list \<Rightarrow> int \<Rightarrow> (real \<times> real) list
     \<Rightarrow> error + (real \<times> real \<times> fval) list" where
  "evaluate_weights sp original model_signals sr1 [] = Inr []"
| "evaluate_weights sp original model_signals sr1 ((first_val, second_val) # rest) =
     (case candidate sp first_val second_val model_signals sr1 of
        Inl e \<Rightarrow> Inl e
      | Inr summ_vocals \<Rightarrow>
     (case get_sdr original summ_vocals of
        Inl e \<Rightarrow> Inl e
      | Inr sdr_vocals \<Rightarrow>
     (case py_index sdr_vocals 0 of
        Inl e \<Rightarrow> Inl e
      | Inr v \<Rightarrow>
     (case evaluate_weights sp original model_signals sr1 rest of
        Inl e \<Rightarrow> Inl e
      | Inr track_sdr_values \<Rightarrow> Inr ((first_val, second_val, v) # track_sdr_values)))))"

text \<open>
  \<open>sf.read\<close> is the audio I/O collaborator: from the components of a path it gives the
  decoded frames (one row per frame, one column per channel) and the sample rate, or raises.
  The transposed array \<open>x.T\<close> has one row per channel; a file without any frame has
  no row to tell its channels from, and is not what the model is about. Neither is a
  file of one channel, which \<open>sf.read\<close> returns as an array of one axis.
\<close>

type_synonym sf_read = "string \<Rightarrow> string \<Rightarrow> string \<Rightarrow> error + (array2 \<times> int)"

fun read_models ::
  "sf_read \<Rightarrow> string \<Rightarrow> string \<Rightarrow> string list \<Rightarrow> error + (array2 list \<times> int list)" where
  "read_models rd root_dir track [] = Inr ([], [])"
| "read_models rd root_dir track (model # rest) =
     (case rd root_dir track (''vocals_'' @ model @ ''.wav'') of
        Inl e \<Rightarrow> Inl e
      | Inr (model_signal, sr) \<Rightarrow>
          (case read_models rd root_dir track rest of
             Inl e \<Rightarrow> Inl e
           | Inr (model_signals, srs) \<Rightarrow> Inr (transpose model_signal # model_signals, sr # srs)))"

fun str_nat :: "nat \<Rightarrow> string" where
  "str_nat n =
     (if n < 10 then [''0123456789'' ! n]
      else str_nat (n div 10) @ [''0123456789'' ! (n mod 10)])"

declare str_nat.simps [simp del]

definition str_int :: "int \<Rightarrow> string" where
  "str_int i = (if i < 0 then ''-'' @ str_nat (nat (- i)) else str_nat (nat i))"

fun join :: "string \<Rightarrow> string list \<Rightarrow> string" where
  "join sep [] = []"
| "join sep [x] = x"
| "join sep (x # y # ys) = x @ sep @ join sep (y # ys)"

definition sample_rate_message :: "int list \<Rightarrow> string" where
  "sample_rate_message srs =
     ''Sample rates are not the same across all files.'' @ [CHR 0x0A]
     @ ''Found sample rates: '' @ join '', '' (map str_int (sort (remdups srs))) @ ''.''
     @ [CHR 0x0A]
     @ ''Please ensure all files have the same sample rate, such as 44100 or 48000.''"

definition process_track ::
  "sf_read \<Rightarrow> ('ba, 'sos) scipy \<Rightarrow> string \<Rightarrow> string \<Rightarrow> (real \<times> real) list \<Rightarrow> string list
     \<Rightarrow> error + (real \<times> real \<times> fval) list" where
  "process_track rd sp root_dir track weight_combinations models =
     (case rd root_dir track ''original_vocals.wav'' of
        Inl e \<Rightarrow> Inl e
      | Inr (original_vocals, sr1) \<Rightarrow>
     (case rd root_dir track ''original_other.wav'' of
        Inl e \<Rightarrow> Inl e
      | Inr (original_other, sr2) \<Rightarrow>
     (case np_op2 (+) (transpose original_vocals) (transpose original_other) of
        Inl e \<Rightarrow> Inl e
      | Inr original_mix \<Rightarrow>
     (case read_models rd root_dir track models of
        Inl e \<Rightarrow> Inl e
      | Inr (model_signals, model_srs) \<Rightarrow>
          let srs = [sr1, sr2] @ model_srs in
          if 1 < length (remdups srs) then Inl (ValueError (sample_rate_message srs))
          else evaluate_weights sp (transpose original_vocals) model_signals sr1
                 weight_combinations))))"

section \<open>Grid search aggregator\<close>

definition weight_step :: real where
  "weight_step = 1"

text \<open>
  \<open>np.arange(start, stop, step)\<close> on floats: \<open>ceil((stop - start) / step)\<close> values
  \<open>start + i * step\<close>. numpy refuses a zero step.
\<close>

definition np_arange :: "real \<Rightarrow> real \<Rightarrow> real \<Rightarrow> error + real list" where
  "np_arange start stop step =
     (if step = 0 then Inl ZeroDivisionError
      else Inr (map (\<lambda>i. start + real i * step) [0..<nat \<lceil>(stop - start) / step\<rceil>]))"

definition weight_combinations :: "error + (real \<times> real) list" where
  "weight_combinations =
     (case np_arange 0 (10 + weight_step) weight_step of
        Inl e \<Rightarrow> Inl e
      | Inr ws \<Rightarrow> Inr (map (\<lambda>first_val. (first_val, 10 - first_val)) ws))"

text \<open>
  The futures are read in the order of submission, and \<open>future.result()\<close> raises again
  what the track raised: the observations of the tracks follow each other in that order,
  up to the first track that fails.
\<close>

fun collect_results ::
  "(error + (real \<times> real \<times> fval) list) list \<Rightarrow> error + (real \<times> real \<times> fval) list" where
  "collect_results [] = Inr []"
| "collect_results (r # rs) =
     (case r of
        Inl e \<Rightarrow> Inl e
      | Inr track_sdr_values \<Rightarrow>
          (case collect_results rs of
             Inl e \<Rightarrow> Inl e
           | Inr all_sdr_values \<Rightarrow> Inr (track_sdr_values @ all_sdr_values)))"

text \<open>
  The dictionary \<open>avg_sdr_per_weight\<close> is a list of keys with their values in the order
  of insertion, which is the order in which Python iterates over it.
\<close>

type_synonym sdr_dict = "((real \<times> real) \<times> fval list) list"

definition record_observation :: "sdr_dict \<Rightarrow> real \<times> real \<times> fval \<Rightarrow> sdr_dict" where
  "record_observation d ob =
     (case ob of (first_val, second_val, sdr_value) \<Rightarrow>
        let d1 = (if (first_val, second_val) \<notin> set (map fst d)
                  then d @ [((first_val, second_val), [])] else d)
        in map (\<lambda>(k, vs). if k = (first_val, second_val) then (k, vs @ [sdr_value]) else (k, vs)) d1)"

definition accumulate :: "(real \<times> real \<times> fval) list \<Rightarrow> sdr_dict" where
  "accumulate all_sdr_values = foldl record_observation [] all_sdr_values"

text \<open>
  Python's \<open>sum\<close> adds the values one after the other, from the left, and every one
  of these additions, like the division by the count, is an operation of \<open>float64\<close>:
  its exact result is rounded to the nearest number of the format, a tie going to the
  even significand, and a result beyond the largest number becomes an infinity. The
  format has 53 bits of significand and exponents from \<open>-1022\<close> to \<open>1023\<close>.
\<close>

definition round_half_even :: "real \<Rightarrow> int" where
  "round_half_even y =
     (let f = \<lfloor>y\<rfloor>; d = y - of_int f
      in if d < 1 / 2 then f else if 1 / 2 < d then f + 1 else if even f then f else f + 1)"

definition round64 :: "real \<Rightarrow> fval" where
  "round64 x =
     (if x = 0 then Fin 0
      else
        let e = max \<lfloor>log 2 \<bar>x\<bar>\<rfloor> (- 1022);
            u = 2 powi (e - 52);
            r = of_int (round_half_even (x / u)) * u
        in if 2 ^ 1024 \<le> \<bar>r\<bar> then (if 0 < x then PInf else NInf) else Fin r)"

fun fadd64 :: "fval \<Rightarrow> fval \<Rightarrow> fval" where
  "fadd64 (Fin a) (Fin b) = round64 (a + b)"
| "fadd64 x y = x + y"

fun fdiv64 :: "fval \<Rightarrow> fval \<Rightarrow> fval" where
  "fdiv64 (Fin a) (Fin b) = (if b \<noteq> 0 then round64 (a / b) else fdiv (Fin a) (Fin b))"
| "fdiv64 x y = fdiv x y"

definition py_sum :: "fval list \<Rightarrow> fval" where
  "py_sum vs = foldl fadd64 (Fin 0) vs"

text \<open>\<open>sum(sdr_values) / len(sdr_values)\<close>; on an empty list it is \<open>0 / 0\<close> of Python's integers.\<close>

definition float_mean :: "fval list \<Rightarrow> fval" where
  "float_mean sdr_values = fdiv64 (py_sum sdr_values) (Fin (real (length sdr_values)))"

definition average :: "fval list \<Rightarrow> error + fval" where
  "average sdr_values =
     (if sdr_values = [] then Inl ZeroDivisionError else Inr (float_mean sdr_values))"

fun select_best :: "fval \<times> (real \<times> real) \<Rightarrow> sdr_dict \<Rightarrow> error + fval \<times> (real \<times> real)" where
  "select_best best [] = Inr best"
| "select_best best ((weights, sdr_values) # rest) =
     (case average sdr_values of
        Inl e \<Rightarrow> Inl e
      | Inr avg_sdr \<Rightarrow>
          if fgt avg_sdr (fst best) then select_best (avg_sdr, weights) rest
          else select_best best rest)"

definition best_combination :: "(real \<times> real \<times> fval) list \<Rightarrow> error + fval \<times> (real \<times> real)" where
  "best_combination all_sdr_values = select_best (NInf, (0, 0)) (accumulate all_sdr_values)"

text \<open>
  \<open>round(x, 2)\<close>: an infinity or NaN is returned as it is, a finite value goes to the
  nearest multiple of \<open>0.01\<close>, ties to the even one.
\<close>

fun py_round2 :: "fval \<Rightarrow> fval" where
  "py_round2 (Fin x) = Fin (of_int (round_half_even (x * 100)) / 100)"
| "py_round2 x = x"

text \<open>What the last line prints: the rounded best average, the two model names, the weights.\<close>

record report =
  best_avg_sdr :: fval
  model_a :: string
  model_b :: string
  best_weights :: "real \<times> real"

definition report_best :: "(real \<times> real \<times> fval) list \<Rightarrow> string list \<Rightarrow> error + report" where
  "report_best all_sdr_values models =
     (case best_combination all_sdr_values of
        Inl e \<Rightarrow> Inl e
      | Inr (best_sdr, weights) \<Rightarrow>
     (case py_index models 0 of
        Inl e \<Rightarrow> Inl e
      | Inr m0 \<Rightarrow>
     (case py_index models 1 of
        Inl e \<Rightarrow> Inl e
      | Inr m1 \<Rightarrow>
          Inr \<lparr>best_avg_sdr = py_round2 best_sdr, model_a = m0, model_b = m1,
               best_weights = weights\<rparr>)))"

text \<open>
  The run, from the tracks that the walk over the tracks folder discovers (each a
  directory and the name of one of its subdirectories). The worker pool is modelled by
  what the run observes of it, the results in the order of submission.
\<close>

definition main ::
  "sf_read \<Rightarrow> ('ba, 'sos) scipy \<Rightarrow> (string \<times> string) list \<Rightarrow> string list \<Rightarrow> error + report" where
  "main rd sp tracks models =
     (case weight_combinations of
        Inl e \<Rightarrow> Inl e
      | Inr wc \<Rightarrow>
     (case collect_results
             (map (\<lambda>(root_dir, track). process_track rd sp root_dir track wc models) tracks) of
        Inl e \<Rightarrow> Inl e
      | Inr all_sdr_values \<Rightarrow> report_best all_sdr_values models))"

text \<open>
  To state what the aggregator computes: the weight pair of an observation, and the
  values recorded for a weight pair, in the order of the observations.
\<close>

definition obs_key :: "real \<times> real \<times> fval \<Rightarrow> real \<times> real" where
  "obs_key ob = (fst ob, fst (snd ob))"

definition recorded :: "(real \<times> real \<times> fval) list \<Rightarrow> real \<times> real \<Rightarrow> fval list" where
  "recorded obs k = map (\<lambda>ob. snd (snd ob)) (filter (\<lambda>ob. (fst ob, fst (snd ob)) = k) obs)"

text \<open>The shapes of the specification: \<open>(channels, samples)\<close> and \<open>(batch, channels, samples)\<close>.\<close>

definition shape2 :: "nat \<Rightarrow> nat \<Rightarrow> 'a list list \<Rightarrow> bool" where
  "shape2 c n a = (length a = c \<and> list_all (\<lambda>r. length r = n) a)"

definition shape3 :: "nat \<Rightarrow> nat \<Rightarrow> nat \<Rightarrow> 'a list list list \<Rightarrow> bool" where
  "shape3 b c n x = (length x = b \<and> list_all (shape2 c n) x)"


text \<open>An array without infinities and NaN.\<close>

definition all_finite :: "array3 \<Rightarrow> bool" where
  "all_finite x = list_all (list_all (list_all is_finite)) x"

text \<open>The average computed for the \<open>j\<close>-th entry of a dictionary.\<close>

definition item_avg :: "sdr_dict \<Rightarrow> nat \<Rightarrow> fval" where
  "item_avg items j = float_mean (snd (items ! j))"

text \<open>
  The dictionary after the observations \<open>obs\<close>: its keys are the weight pairs observed,
  each once, and each holds the values recorded for it, in their order.
\<close>

definition dict_inv :: "sdr_dict \<Rightarrow> (real \<times> real \<times> fval) list \<Rightarrow> bool" where
  "dict_inv d obs = (distinct (map fst d) \<and> set (map fst d) = obs_key ` set obs
       \<and> (\<forall>k \<in> obs_key ` set obs. map_of d k = Some (recorded obs k)))"

section \<open>Auxiliary facts\<close>

subsection \<open>Elementwise operations and sums\<close>

lemma weight_grid: "weight_combinations = Inr (map (\<lambda>w. (real w, 10 - real w)) [0..<11])"
  by (simp add: weight_combinations_def np_arange_def weight_step_def comp_def)

lemma delta_pos: "0 < delta"
  by (simp add: delta_def)

lemma sequence_sum_all_Inr:
  "(\<And>x. x \<in> set xs \<Longrightarrow> f x = Inr (g x)) \<Longrightarrow> sequence_sum (map f xs) = Inr (map g xs)"
  by (induction xs) simp_all

lemma broadcast_same:
  assumes "length xs = length ys"
    and "\<And>x y. (x, y) \<in> set (zip xs ys) \<Longrightarrow> f x y = Inr (g x y)"
  shows "broadcast f xs ys = Inr (map2 g xs ys)"
proof -
  have "sequence_sum (map (\<lambda>p. f (fst p) (snd p)) (zip xs ys))
        = Inr (map (\<lambda>p. g (fst p) (snd p)) (zip xs ys))"
    by (rule sequence_sum_all_Inr) (use assms(2) in auto)
  then show ?thesis using assms(1) by (simp add: broadcast_def case_prod_unfold)
qed

lemma np_op1_same: "length xs = length ys \<Longrightarrow> np_op1 f xs ys = Inr (map2 f xs ys)"
  unfolding np_op1_def by (rule broadcast_same) (simp_all add: np_op0_def)

lemma np_op2_same:
  assumes "length a = length b" and "\<And>r s. (r, s) \<in> set (zip a b) \<Longrightarrow> length r = length s"
  shows "np_op2 f a b = Inr (map2 (map2 f) a b)"
  unfolding np_op2_def by (rule broadcast_same) (simp_all add: assms np_op1_same)

lemma np_op3_same:
  assumes "length x = length y"
    and "\<And>a b. (a, b) \<in> set (zip x y) \<Longrightarrow> length a = length b"
    and "\<And>a b r s. (a, b) \<in> set (zip x y) \<Longrightarrow> (r, s) \<in> set (zip a b) \<Longrightarrow> length r = length s"
  shows "np_op3 f x y = Inr (map2 (map2 (map2 f)) x y)"
  unfolding np_op3_def
proof (rule broadcast_same)
  show "length x = length y" by fact
  fix a b assume "(a, b) \<in> set (zip x y)"
  then show "np_op2 f a b = Inr (map2 (map2 f) a b)"
    using assms(2,3) by (intro np_op2_same) blast+
qed

lemma sum_list_Fin: "sum_list (map Fin xs) = Fin (sum_list xs)"
  by (induction xs) (simp_all add: zero_fval_def)

lemma sum_Fin: "(\<Sum>i\<in>A. Fin (f i)) = Fin (\<Sum>i\<in>A. f i)"
  by (induction A rule: infinite_finite_induct) (simp_all add: zero_fval_def)

lemma np_square_Fin: "np_square (Fin x) = Fin (x\<^sup>2)"
  by (simp add: np_square_def power2_eq_square)

lemma fsub_Fin: "fsub (Fin x) (Fin y) = Fin (x - y)"
  by (simp add: fsub_def)

subsection \<open>The metric on matching shapes\<close>


lemma sdr_matching:
  assumes "length x = length y"
    and "\<And>a b. (a, b) \<in> set (zip x y) \<Longrightarrow> length a = length b"
    and "\<And>a b r s. (a, b) \<in> set (zip x y) \<Longrightarrow> (r, s) \<in> set (zip a b) \<Longrightarrow> length r = length s"
  shows "sdr x y = Inr (map2 (\<lambda>a b. fmul (Fin 10) (flog10 (fdiv
            (sum_list (map sum_list (map (map np_square) a)) + Fin delta)
            (sum_list (map sum_list (map (map np_square) (map2 (map2 fsub) a b))) + Fin delta))))
          x y)"
proof -
  have d: "np_op3 fsub x y = Inr (map2 (map2 (map2 fsub)) x y)"
    using assms by (rule np_op3_same)
  let ?num = "map (\<lambda>v. v + Fin delta) (np_sum_12 (map (map (map np_square)) x))"
  let ?den = "map (\<lambda>v. v + Fin delta)
                (np_sum_12 (map (map (map np_square)) (map2 (map2 (map2 fsub)) x y)))"
  have q: "np_op1 fdiv ?num ?den = Inr (map2 fdiv ?num ?den)"
    by (rule np_op1_same) (simp add: np_sum_12_def assms(1))
  have "sdr x y = Inr (map (\<lambda>v. fmul (Fin 10) (flog10 v)) (map2 fdiv ?num ?den))"
    by (simp only: sdr_def Let_def d q sum.case)
  also have "map (\<lambda>v. fmul (Fin 10) (flog10 v)) (map2 fdiv ?num ?den)
      = map2 (\<lambda>a b. fmul (Fin 10) (flog10 (fdiv
            (sum_list (map sum_list (map (map np_square) a)) + Fin delta)
            (sum_list (map sum_list (map (map np_square) (map2 (map2 fsub) a b))) + Fin delta))))
          x y"
    using assms(1) by (intro nth_equalityI) (simp_all add: np_sum_12_def)
  finally show ?thesis .
qed

lemma sum_list_rows:
  assumes "shape2 C N a"
  shows "sum_list (map sum_list (map (map f) a)) = (\<Sum>c<C. \<Sum>s<N. f (a ! c ! s))"
proof -
  have len: "length a = C" and row: "\<And>c. c < C \<Longrightarrow> length (a ! c) = N"
    using assms by (auto simp: shape2_def list_all_length)
  have "sum_list (map sum_list (map (map f) a))
      = (\<Sum>c<C. sum_list (map f (a ! c)))"
    by (simp add: sum_list_sum_nth len atLeast0LessThan)
  also have "\<dots> = (\<Sum>c<C. \<Sum>s<N. f (a ! c ! s))"
    by (rule sum.cong) (simp_all add: sum_list_sum_nth row atLeast0LessThan)
  finally show ?thesis .
qed

lemma shape2_map2:
  assumes "shape2 C N a" "shape2 C N b"
  shows "shape2 C N (map2 (map2 g) a b)"
  using assms by (auto simp: shape2_def list_all_length)

lemma nth_map2_rows:
  assumes "shape2 C N a" "shape2 C N b" "c < C" "s < N"
  shows "map2 (map2 g) a b ! c ! s = g (a ! c ! s) (b ! c ! s)"
  using assms by (auto simp: shape2_def list_all_length)

lemma sum_list_rows_diff:
  assumes "shape2 C N a" "shape2 C N b"
  shows "sum_list (map sum_list (map (map f) (map2 (map2 g) a b)))
       = (\<Sum>c<C. \<Sum>s<N. f (g (a ! c ! s) (b ! c ! s)))"
proof -
  have "sum_list (map sum_list (map (map f) (map2 (map2 g) a b)))
      = (\<Sum>c<C. \<Sum>s<N. f (map2 (map2 g) a b ! c ! s))"
    by (rule sum_list_rows) (rule shape2_map2 [OF assms])
  also have "\<dots> = (\<Sum>c<C. \<Sum>s<N. f (g (a ! c ! s) (b ! c ! s)))"
    by (intro sum.cong refl) (simp add: nth_map2_rows [OF assms])
  finally show ?thesis .
qed

lemma shape3_matching:
  assumes "shape3 B C N x" "shape3 B C N y"
  shows "length x = length y"
    and "\<And>a b. (a, b) \<in> set (zip x y) \<Longrightarrow> length a = length b"
    and "\<And>a b r s. (a, b) \<in> set (zip x y) \<Longrightarrow> (r, s) \<in> set (zip a b) \<Longrightarrow> length r = length s"
  using assms by (auto simp: shape3_def shape2_def list_all_length in_set_zip)

lemma is_finite_Fin: "is_finite v \<Longrightarrow> v = Fin (fin_val v)"
  by (cases v) simp_all

lemma sdr_general:
  assumes "shape3 B C N references" "shape3 B C N estimates"
  shows "sdr references estimates = Inr (map (\<lambda>b. fmul (Fin 10) (flog10 (fdiv
             ((\<Sum>c<C. \<Sum>s<N. np_square (references ! b ! c ! s)) + Fin delta)
             ((\<Sum>c<C. \<Sum>s<N. np_square (fsub (references ! b ! c ! s) (estimates ! b ! c ! s)))
                + Fin delta)))) [0..<B])"
proof -
  have len: "length references = B" "length estimates = B"
    using assms by (simp_all add: shape3_def)
  have sh: "\<And>b. b < B \<Longrightarrow> shape2 C N (references ! b)" "\<And>b. b < B \<Longrightarrow> shape2 C N (estimates ! b)"
    using assms by (auto simp: shape3_def list_all_length)
  note m = shape3_matching [OF assms]
  define F where "F = (\<lambda>a b. fmul (Fin 10) (flog10 (fdiv
            (sum_list (map sum_list (map (map np_square) a)) + Fin delta)
            (sum_list (map sum_list (map (map np_square) (map2 (map2 fsub) a b))) + Fin delta))))"
  define G where "G = (\<lambda>b. fmul (Fin 10) (flog10 (fdiv
             ((\<Sum>c<C. \<Sum>s<N. np_square (references ! b ! c ! s)) + Fin delta)
             ((\<Sum>c<C. \<Sum>s<N. np_square (fsub (references ! b ! c ! s) (estimates ! b ! c ! s)))
                + Fin delta))))"
  have FG: "F (references ! b) (estimates ! b) = G b" if "b < B" for b
    unfolding F_def G_def
    by (simp only: sum_list_rows [OF sh(1) [OF that]]
          sum_list_rows_diff [OF sh(1) [OF that] sh(2) [OF that]])
  have "map2 F references estimates = map G [0..<B]"
    by (intro nth_equalityI) (simp_all add: len FG)
  moreover have "sdr references estimates = Inr (map2 F references estimates)"
    unfolding F_def by (rule sdr_matching [OF m])
  ultimately show ?thesis
    unfolding G_def by simp
qed

subsection \<open>Finite samples\<close>

lemma log_step:
  assumes "0 \<le> n" "0 \<le> d"
  shows "fmul (Fin 10) (flog10 (fdiv (Fin n + Fin delta) (Fin d + Fin delta)))
       = Fin (10 * log 10 ((n + delta) / (d + delta)))"
proof -
  have "0 < n + delta" "0 < d + delta" using assms delta_pos by linarith+
  then have "0 < (n + delta) / (d + delta)" by simp
  then show ?thesis using \<open>0 < d + delta\<close> by simp
qed

lemma all_finite_nth:
  assumes "all_finite x" "shape3 B C N x" "b < B" "c < C" "s < N"
  shows "x ! b ! c ! s = Fin (fin_val (x ! b ! c ! s))"
proof -
  have "is_finite (x ! b ! c ! s)"
    using assms by (auto simp: all_finite_def shape3_def shape2_def list_all_length)
  then show ?thesis by (rule is_finite_Fin)
qed

subsection \<open>An estimate equal to the reference\<close>











subsection \<open>Trimming\<close>

lemma ncols_shape2: "shape2 C N a \<Longrightarrow> 0 < C \<Longrightarrow> ncols a = N"
  by (cases a) (simp_all add: shape2_def ncols_def)

lemma shape2_take: "shape2 C N a \<Longrightarrow> n \<le> N \<Longrightarrow> shape2 C n (map (take n) a)"
  by (auto simp: shape2_def list_all_length)

lemma nth_take_rows:
  "shape2 C N a \<Longrightarrow> c < C \<Longrightarrow> s < n \<Longrightarrow> map (take n) a ! c ! s = a ! c ! s"
  by (simp add: shape2_def)

lemma get_sdr_min:
  assumes "shape2 C N1 original_signal" "shape2 C N2 model_signal"
  shows "get_sdr original_signal model_signal
       = sdr [map (take (min N1 N2)) original_signal] [map (take (min N1 N2)) model_signal]"
proof (cases "C = 0")
  case True
  then have "original_signal = []" "model_signal = []"
    using assms by (simp_all add: shape2_def)
  then show ?thesis by (simp add: get_sdr_def)
next
  case False
  then have "ncols original_signal = N1" "ncols model_signal = N2"
    using assms by (simp_all add: ncols_shape2)
  then show ?thesis by (simp add: get_sdr_def Let_def)
qed

subsection \<open>Arrays given sample by sample\<close>

lemma explicit_rows:
  assumes "shape2 C N x" and "\<And>c i. c < C \<Longrightarrow> i < N \<Longrightarrow> x ! c ! i = f c i"
  shows "x = map (\<lambda>c. map (\<lambda>i. f c i) [0..<N]) [0..<C]"
proof (rule nth_equalityI)
  show "length x = length (map (\<lambda>c. map (\<lambda>i. f c i) [0..<N]) [0..<C])"
    using assms(1) by (simp add: shape2_def)
  fix c assume "c < length x"
  then have c: "c < C" using assms(1) by (simp add: shape2_def)
  then have l: "length (x ! c) = N" using assms(1) by (simp add: shape2_def list_all_length)
  show "x ! c = map (\<lambda>c. map (\<lambda>i. f c i) [0..<N]) [0..<C] ! c"
    by (rule nth_equalityI) (simp_all add: c l assms(2))
qed

lemma shape2_map: "shape2 C N a \<Longrightarrow> shape2 C N (map (map g) a)"
  by (simp add: shape2_def list_all_length)

lemma np_op2_shape:
  assumes "shape2 C N a" "shape2 C N b"
  shows "np_op2 f a b = Inr (map2 (map2 f) a b)"
  using assms by (intro np_op2_same) (auto simp: shape2_def list_all_length in_set_zip)

subsection \<open>The calls of the filter\<close>

lemma lr_filter_calls:
  assumes "sr \<noteq> 0"
    and "butter sp (order div 2) (cutoff / (0.5 * real_of_int sr)) ftype = Inr ba"
    and "tf2sos sp ba = Inr sos"
  shows "lr_filter sp audio cutoff ftype order sr = sosfiltfilt sp sos audio"
  using assms by (simp add: lr_filter_def Let_def)

subsection \<open>The dictionary of the aggregator\<close>

lemma recorded_alt: "recorded obs k = map (\<lambda>ob. snd (snd ob)) (filter (\<lambda>ob. obs_key ob = k) obs)"
  by (simp add: recorded_def obs_key_def)

lemma recorded_snoc:
  "recorded (obs @ [ob]) k = recorded obs k @ (if obs_key ob = k then [snd (snd ob)] else [])"
  by (simp add: recorded_alt)

lemma recorded_empty_iff: "(recorded obs k = []) = (k \<notin> obs_key ` set obs)"
  by (auto simp: recorded_alt filter_empty_conv)

lemma record_keys:
  "map fst (record_observation d ob)
     = (if obs_key ob \<in> set (map fst d) then map fst d else map fst d @ [obs_key ob])"
  by (cases ob) (auto simp: record_observation_def obs_key_def Let_def case_prod_unfold comp_def)

lemma map_of_append_values:
  "map_of (map (\<lambda>(k', vs). if k' = k then (k', vs @ [v]) else (k', vs)) d) k'
     = map_option (\<lambda>vs. if k' = k then vs @ [v] else vs) (map_of d k')"
  by (induction d) auto

lemma record_lookup:
  "map_of (record_observation d ob) k
     = (if k = obs_key ob
        then Some ((case map_of d k of None \<Rightarrow> [] | Some vs \<Rightarrow> vs) @ [snd (snd ob)])
        else map_of d k)"
proof (cases ob)
  case (fields w1 w2 v)
  let ?d1 = "if (w1, w2) \<notin> set (map fst d) then d @ [((w1, w2), [])] else d"
  have r: "record_observation d ob
         = map (\<lambda>(k', vs). if k' = (w1, w2) then (k', vs @ [v]) else (k', vs)) ?d1"
    by (simp add: record_observation_def fields Let_def)
  have l: "map_of ?d1 k = (if k = (w1, w2) \<and> (w1, w2) \<notin> set (map fst d) then Some [] else map_of d k)"
  proof (cases "(w1, w2) \<in> set (map fst d)")
    case True
    then show ?thesis by simp
  next
    case False
    then have "map_of d (w1, w2) = None" by (simp add: map_of_eq_None_iff)
    then show ?thesis using False by (auto simp: map_add_def split: option.splits)
  qed
  show ?thesis
  proof (cases "(w1, w2) \<in> set (map fst d)")
    case True
    then obtain vs where "map_of d (w1, w2) = Some vs"
      by (metis map_of_eq_None_iff not_Some_eq set_map)
    then show ?thesis
      unfolding r map_of_append_values l using True
      by (auto simp: fields obs_key_def option.map_ident)
  next
    case False
    then have "map_of d (w1, w2) = None" by (simp add: map_of_eq_None_iff)
    then show ?thesis
      unfolding r map_of_append_values l using False
      by (auto simp: fields obs_key_def option.map_ident)
  qed
qed

lemma dict_inv_step:
  assumes "dict_inv d obs"
  shows "dict_inv (record_observation d ob) (obs @ [ob])"
proof -
  have dk: "distinct (map fst d)" and ks: "set (map fst d) = obs_key ` set obs"
    and lk: "\<And>k. k \<in> obs_key ` set obs \<Longrightarrow> map_of d k = Some (recorded obs k)"
    using assms by (auto simp: dict_inv_def)
  have none: "map_of d k = None" if "k \<notin> obs_key ` set obs" for k
    using that ks by (simp add: map_of_eq_None_iff)
  have 1: "distinct (map fst (record_observation d ob))"
    using dk by (simp add: record_keys)
  have 2: "set (map fst (record_observation d ob)) = obs_key ` set (obs @ [ob])"
    using ks by (auto simp: record_keys)
  have 3: "map_of (record_observation d ob) k = Some (recorded (obs @ [ob]) k)"
    if "k \<in> obs_key ` set (obs @ [ob])" for k
  proof (cases "k \<in> obs_key ` set obs")
    case True
    then have m: "map_of d k = Some (recorded obs k)" by (rule lk)
    show ?thesis unfolding record_lookup recorded_snoc m by auto
  next
    case False
    then have "k = obs_key ob" using that by auto
    moreover have "recorded obs k = []" using False by (simp add: recorded_empty_iff)
    ultimately show ?thesis using none [OF False] by (simp add: record_lookup recorded_snoc)
  qed
  show ?thesis unfolding dict_inv_def using 1 2 3 by blast
qed

lemma dict_inv_accumulate: "dict_inv (accumulate obs) obs"
proof (induction obs rule: rev_induct)
  case Nil
  show ?case by (simp add: accumulate_def dict_inv_def)
next
  case (snoc ob obs)
  then show ?case using dict_inv_step [of "accumulate obs" obs ob] by (simp add: accumulate_def)
qed

lemma accumulate_items:
  shows "distinct (map fst (accumulate obs))"
    and "set (map fst (accumulate obs)) = obs_key ` set obs"
    and "(k, vs) \<in> set (accumulate obs) \<Longrightarrow> vs = recorded obs k \<and> vs \<noteq> []"
proof -
  note i = dict_inv_accumulate [of obs, unfolded dict_inv_def]
  show d: "distinct (map fst (accumulate obs))" using i by blast
  show s: "set (map fst (accumulate obs)) = obs_key ` set obs" using i by blast
  assume m: "(k, vs) \<in> set (accumulate obs)"
  then have k: "k \<in> obs_key ` set obs" using s by force
  have "map_of (accumulate obs) k = Some vs" using d m by simp
  moreover have "map_of (accumulate obs) k = Some (recorded obs k)" using i k by blast
  ultimately have "vs = recorded obs k" by simp
  moreover have "recorded obs k \<noteq> []" using k by (simp add: recorded_empty_iff)
  ultimately show "vs = recorded obs k \<and> vs \<noteq> []" by simp
qed


subsection \<open>Rounding to \<open>float64\<close>\<close>

lemma floor_log2_eq:
  assumes "2 powi e \<le> x" "x < 2 powi (e + 1)"
  shows "\<lfloor>log 2 x\<rfloor> = e"
proof -
  have p: "(2::real) powi e > 0" by simp
  then have x: "0 < x" using assms(1) by linarith
  have a: "(2::real) powr real_of_int e = 2 powi e" by (rule powr_real_of_int') simp_all
  have b: "(2::real) powr (real_of_int e + 1) = 2 powi (e + 1)"
    using powr_real_of_int' [of "2::real" "e + 1"] by simp
  show ?thesis
    using floor_log_eq_powr_iff [of x 2 e] x assms a b by simp
qed

lemma round64_normal:
  assumes "2 powi e \<le> \<bar>x\<bar>" "\<bar>x\<bar> < 2 powi (e + 1)" "- 1022 \<le> e"
    and "round_half_even (x / 2 powi (e - 52)) = m"
    and "of_int m * 2 powi (e - 52) = r"
    and "\<bar>r\<bar> < 2 ^ 1024"
  shows "round64 x = Fin r"
proof -
  have "(2::real) powi e > 0" by simp
  then have "0 < \<bar>x\<bar>" using assms(1) by linarith
  then have nz: "x \<noteq> 0" by simp
  have f: "\<lfloor>log 2 \<bar>x\<bar>\<rfloor> = e" using assms(1,2) by (rule floor_log2_eq)
  have m: "max e (- 1022) = e" using assms(3) by simp
  show ?thesis
    using nz assms(4,5,6) by (simp add: round64_def f m Let_def)
qed

lemma fadd64_normal:
  assumes "2 powi e \<le> \<bar>a + b\<bar>" "\<bar>a + b\<bar> < 2 powi (e + 1)" "- 1022 \<le> e"
    and "round_half_even ((a + b) / 2 powi (e - 52)) = m"
    and "of_int m * 2 powi (e - 52) = r"
    and "\<bar>r\<bar> < 2 ^ 1024"
  shows "fadd64 (Fin a) (Fin b) = Fin r"
  using round64_normal [OF assms] by simp

lemma fdiv64_normal:
  assumes "b \<noteq> 0"
    and "2 powi e \<le> \<bar>a / b\<bar>" "\<bar>a / b\<bar> < 2 powi (e + 1)" "- 1022 \<le> e"
    and "round_half_even ((a / b) / 2 powi (e - 52)) = m"
    and "of_int m * 2 powi (e - 52) = r"
    and "\<bar>r\<bar> < 2 ^ 1024"
  shows "fdiv64 (Fin a) (Fin b) = Fin r"
  using round64_normal [OF assms(2-)] assms(1) by simp

lemmas float_eval = power_int_def power_divide round_half_even_def Let_def

lemma fadd64_0_1: "fadd64 (Fin 0) (Fin 1) = Fin 1"
  by (rule fadd64_normal [where e = 0 and m = "2 ^ 52"]) (simp_all add: float_eval)









lemma fadd64_1_3: "fadd64 (Fin 1) (Fin 3) = Fin 4"
  by (rule fadd64_normal [where e = 2 and m = "2 ^ 52"]) (simp_all add: float_eval)

lemma fadd64_0_2: "fadd64 (Fin 0) (Fin 2) = Fin 2"
  by (rule fadd64_normal [where e = 1 and m = "2 ^ 52"]) (simp_all add: float_eval)

lemma fdiv64_4_2: "fdiv64 (Fin 4) (Fin 2) = Fin 2"
  by (rule fdiv64_normal [where e = 1 and m = "2 ^ 52"]) (simp_all add: float_eval)

lemma fdiv64_2_1: "fdiv64 (Fin 2) (Fin 1) = Fin 2"
  by (rule fdiv64_normal [where e = 1 and m = "2 ^ 52"]) (simp_all add: float_eval)

subsection \<open>The search for the best average\<close>

lemma fgt_irrefl: "\<not> fgt a a"
  by (cases a) simp_all

lemma fgt_trans: "fgt a b \<Longrightarrow> fgt b c \<Longrightarrow> fgt a c"
  by (cases a; cases b; cases c) simp_all

lemma fgt_asym: "fgt a b \<Longrightarrow> \<not> fgt b a"
  by (cases a; cases b) simp_all

lemma fgt_below: "\<not> fgt m b \<Longrightarrow> fgt a b \<Longrightarrow> \<not> fgt m a"
  by (cases a; cases b; cases m) simp_all

lemma fgt_below_strict: "\<not> fgt m b \<Longrightarrow> fgt a b \<Longrightarrow> fgt a m \<or> m = NaN"
  by (cases a; cases b; cases m) simp_all

lemma average_float_mean: "vs \<noteq> [] \<Longrightarrow> average vs = Inr (float_mean vs)"
  by (simp add: average_def)

lemma select_best_general:
  assumes "\<forall>x \<in> set items. snd x \<noteq> []"
  shows "(select_best best items = Inr best
            \<and> (\<forall>j<length items. \<not> fgt (item_avg items j) (fst best)))
       \<or> (\<exists>i<length items. select_best best items = Inr (item_avg items i, fst (items ! i))
            \<and> fgt (item_avg items i) (fst best)
            \<and> (\<forall>j<length items. \<not> fgt (item_avg items j) (item_avg items i))
            \<and> (\<forall>j<i. fgt (item_avg items i) (item_avg items j) \<or> item_avg items j = NaN))"
  using assms
proof (induction items arbitrary: best)
  case Nil
  then show ?case by simp
next
  case (Cons item items)
  obtain k vs where item: "item = (k, vs)" by (cases item)
  define m where "m = float_mean vs"
  have a: "average vs = Inr m"
    unfolding m_def using Cons.prems item by (intro average_float_mean) simp
  have rest: "\<forall>x \<in> set items. snd x \<noteq> []"
    using Cons.prems by simp
  have fk: "fst item = k" by (simp add: item)
  have m0: "item_avg (item # items) 0 = m"
    by (simp add: item_avg_def item m_def)
  have mS: "item_avg (item # items) (Suc j) = item_avg items j" for j
    by (simp add: item_avg_def)
  show ?case
  proof (cases "fgt m (fst best)")
    case True
    have s: "select_best best (item # items) = select_best (m, k) items"
      using True by (simp add: item a)
    from Cons.IH [OF rest, of "(m, k)"]
    consider (keep) "select_best (m, k) items = Inr (m, k)"
        "\<forall>j<length items. \<not> fgt (item_avg items j) m"
      | (later) i where "i < length items"
        "select_best (m, k) items = Inr (item_avg items i, fst (items ! i))"
        "fgt (item_avg items i) m"
        "\<forall>j<length items. \<not> fgt (item_avg items j) (item_avg items i)"
        "\<forall>j<i. fgt (item_avg items i) (item_avg items j) \<or> item_avg items j = NaN"
      by (simp only: fst_conv) blast
    then show ?thesis
    proof cases
      case keep
      have "\<forall>j<length (item # items).
              \<not> fgt (item_avg (item # items) j) (item_avg (item # items) 0)"
        using keep(2) by (auto simp: m0 mS less_Suc_eq_0_disj fgt_irrefl)
      then have "0 < length (item # items)
          \<and> select_best best (item # items)
              = Inr (item_avg (item # items) 0, fst ((item # items) ! 0))
          \<and> fgt (item_avg (item # items) 0) (fst best)
          \<and> (\<forall>j<length (item # items).
                \<not> fgt (item_avg (item # items) j) (item_avg (item # items) 0))
          \<and> (\<forall>j<0. fgt (item_avg (item # items) 0) (item_avg (item # items) j)
                     \<or> item_avg (item # items) j = NaN)"
        using True by (simp add: s keep(1) m0 fk)
      then show ?thesis by blast
    next
      case later
      have gt: "fgt (item_avg items i) (fst best)"
        using later(3) True by (rule fgt_trans)
      have n0: "\<not> fgt m (item_avg items i)"
        using later(3) by (rule fgt_asym)
      have "Suc i < length (item # items)
          \<and> select_best best (item # items)
              = Inr (item_avg (item # items) (Suc i), fst ((item # items) ! Suc i))
          \<and> fgt (item_avg (item # items) (Suc i)) (fst best)
          \<and> (\<forall>j<length (item # items).
                \<not> fgt (item_avg (item # items) j) (item_avg (item # items) (Suc i)))
          \<and> (\<forall>j<Suc i. fgt (item_avg (item # items) (Suc i)) (item_avg (item # items) j)
                     \<or> item_avg (item # items) j = NaN)"
        using later gt n0 by (auto simp: s m0 mS less_Suc_eq_0_disj)
      then show ?thesis by blast
    qed
  next
    case False
    have s: "select_best best (item # items) = select_best best items"
      using False by (simp add: item a)
    from Cons.IH [OF rest, of best]
    consider (keep) "select_best best items = Inr best"
        "\<forall>j<length items. \<not> fgt (item_avg items j) (fst best)"
      | (later) i where "i < length items"
        "select_best best items = Inr (item_avg items i, fst (items ! i))"
        "fgt (item_avg items i) (fst best)"
        "\<forall>j<length items. \<not> fgt (item_avg items j) (item_avg items i)"
        "\<forall>j<i. fgt (item_avg items i) (item_avg items j) \<or> item_avg items j = NaN"
      by blast
    then show ?thesis
    proof cases
      case keep
      have "select_best best (item # items) = Inr best
          \<and> (\<forall>j<length (item # items). \<not> fgt (item_avg (item # items) j) (fst best))"
        using keep False by (auto simp: s m0 mS less_Suc_eq_0_disj)
      then show ?thesis by blast
    next
      case later
      have n0: "\<not> fgt m (item_avg items i)"
        using False later(3) by (rule fgt_below)
      have g0: "fgt (item_avg items i) m \<or> m = NaN"
        using False later(3) by (rule fgt_below_strict)
      have "Suc i < length (item # items)
          \<and> select_best best (item # items)
              = Inr (item_avg (item # items) (Suc i), fst ((item # items) ! Suc i))
          \<and> fgt (item_avg (item # items) (Suc i)) (fst best)
          \<and> (\<forall>j<length (item # items).
                \<not> fgt (item_avg (item # items) j) (item_avg (item # items) (Suc i)))
          \<and> (\<forall>j<Suc i. fgt (item_avg (item # items) (Suc i)) (item_avg (item # items) j)
                     \<or> item_avg (item # items) j = NaN)"
        using later n0 g0 by (auto simp: s m0 mS less_Suc_eq_0_disj)
      then show ?thesis by blast
    qed
  qed
qed

subsection \<open>The check of the sample rates\<close>

text \<open>
  The check of the sample rates, once it is reached: the two original files are read,
  their sum is formed, the model files are read. Then more than one distinct rate raises
  the error whose message lists the distinct rates in ascending order, and one common
  rate raises nothing here.
\<close>

lemma sorted_rates:
  "sorted (sort (remdups srs)) \<and> distinct (sort (remdups srs))
     \<and> set (sort (remdups srs)) = set (srs :: int list)"
  by simp

lemma sample_rate_check:
  assumes "rd root_dir track ''original_vocals.wav'' = Inr (original_vocals, sr1)"
    and "rd root_dir track ''original_other.wav'' = Inr (original_other, sr2)"
    and "np_op2 (+) (transpose original_vocals) (transpose original_other) = Inr original_mix"
    and "read_models rd root_dir track models = Inr (model_signals, model_srs)"
  shows "process_track rd sp root_dir track wc models
       = (if 1 < card (set (sr1 # sr2 # model_srs))
          then Inl (ValueError (sample_rate_message (sr1 # sr2 # model_srs)))
          else evaluate_weights sp (transpose original_vocals) model_signals sr1 wc)"
proof -
  have "length (remdups (sr1 # sr2 # model_srs)) = card (set (sr1 # sr2 # model_srs))"
    by (rule length_remdups_card_conv)
  then show ?thesis
    by (simp add: process_track_def assms Let_def del: remdups.simps)
qed

lemma sample_rate_message_example:
  "sample_rate_message [48000, 44100, 48000, 44100]
     = ''Sample rates are not the same across all files.'' @ [CHR 0x0A]
       @ ''Found sample rates: 44100, 48000.'' @ [CHR 0x0A]
       @ ''Please ensure all files have the same sample rate, such as 44100 or 48000.''"
  by (simp add: sample_rate_message_def str_int_def str_nat.simps)

lemma sample_rate_mismatch_equal_lengths:
  "process_track
     (\<lambda>d t f. if f = ''original_vocals.wav''
                then Inr ([[Fin 0, Fin 0], [Fin 0, Fin 0]], 44100)
              else if f = ''original_other.wav''
                then Inr ([[Fin 0, Fin 0], [Fin 0, Fin 0]], 48000)
              else Inr ([[Fin 0, Fin 0], [Fin 0, Fin 0]], 44100))
     \<lparr>butter = (\<lambda>n w t. Inr ()), tf2sos = (\<lambda>ba. Inr ()), sosfiltfilt = (\<lambda>sos x. Inr x)\<rparr>
     ''songs'' ''track'' [(0, 10)] [''a'', ''b'']
   = Inl (ValueError (sample_rate_message [44100, 48000, 44100, 44100]))"
  by (simp add: process_track_def np_op2_def np_op1_def np_op0_def broadcast_def)

section \<open>The metric\<close>

text \<open>
  Claim C1. For two inputs of one shape \<open>(batch, channels, samples)\<close>, \<open>sdr\<close> returns
  for every batch element \<open>10 * log10((S_ref + 1e-7) / (S_err + 1e-7))\<close>, where \<open>S_ref\<close>
  is the sum of the squared reference samples and \<open>S_err\<close> the sum of the squared
  differences of reference and estimate, both over the channel and the sample axis. The
  first part states it in the arithmetic of the arrays, for all samples; the second part
  states it as a real number when no sample is an infinity or NaN.
\<close>

theorem sdr_formula:
  assumes "shape3 B C N references" "shape3 B C N estimates"
  shows "sdr references estimates = Inr (map (\<lambda>b. fmul (Fin 10) (flog10 (fdiv
             ((\<Sum>c<C. \<Sum>s<N. np_square (references ! b ! c ! s)) + Fin delta)
             ((\<Sum>c<C. \<Sum>s<N. np_square (fsub (references ! b ! c ! s) (estimates ! b ! c ! s)))
                + Fin delta)))) [0..<B])
     \<and> (all_finite references \<and> all_finite estimates \<longrightarrow>
          sdr references estimates = Inr (map (\<lambda>b. Fin (10 * log 10
             (((\<Sum>c<C. \<Sum>s<N. (fin_val (references ! b ! c ! s))\<^sup>2) + delta)
              / ((\<Sum>c<C. \<Sum>s<N. (fin_val (references ! b ! c ! s)
                                      - fin_val (estimates ! b ! c ! s))\<^sup>2) + delta))))
             [0..<B]))"
proof (intro conjI impI)
  show g: "sdr references estimates = Inr (map (\<lambda>b. fmul (Fin 10) (flog10 (fdiv
             ((\<Sum>c<C. \<Sum>s<N. np_square (references ! b ! c ! s)) + Fin delta)
             ((\<Sum>c<C. \<Sum>s<N. np_square (fsub (references ! b ! c ! s) (estimates ! b ! c ! s)))
                + Fin delta)))) [0..<B])"
    by (rule sdr_general [OF assms])
  assume fin: "all_finite references \<and> all_finite estimates"
  have r: "references ! b ! c ! s = Fin (fin_val (references ! b ! c ! s))"
    if "b < B" "c < C" "s < N" for b c s
    using fin assms(1) that by (intro all_finite_nth) auto
  have e: "estimates ! b ! c ! s = Fin (fin_val (estimates ! b ! c ! s))"
    if "b < B" "c < C" "s < N" for b c s
    using fin assms(2) that by (intro all_finite_nth) auto
  have step: "fmul (Fin 10) (flog10 (fdiv
             ((\<Sum>c<C. \<Sum>s<N. np_square (references ! b ! c ! s)) + Fin delta)
             ((\<Sum>c<C. \<Sum>s<N. np_square (fsub (references ! b ! c ! s) (estimates ! b ! c ! s)))
                + Fin delta)))
      = Fin (10 * log 10
             (((\<Sum>c<C. \<Sum>s<N. (fin_val (references ! b ! c ! s))\<^sup>2) + delta)
              / ((\<Sum>c<C. \<Sum>s<N. (fin_val (references ! b ! c ! s)
                                      - fin_val (estimates ! b ! c ! s))\<^sup>2) + delta)))"
    if b: "b < B" for b
  proof -
    have n: "(\<Sum>c<C. \<Sum>s<N. np_square (references ! b ! c ! s))
           = Fin (\<Sum>c<C. \<Sum>s<N. (fin_val (references ! b ! c ! s))\<^sup>2)"
    proof -
      have "(\<Sum>c<C. \<Sum>s<N. np_square (references ! b ! c ! s))
          = (\<Sum>c<C. \<Sum>s<N. Fin ((fin_val (references ! b ! c ! s))\<^sup>2))"
        by (intro sum.cong refl) (metis r [OF b] lessThan_iff np_square_Fin)
      then show ?thesis by (simp only: sum_Fin)
    qed
    have d: "(\<Sum>c<C. \<Sum>s<N. np_square (fsub (references ! b ! c ! s) (estimates ! b ! c ! s)))
           = Fin (\<Sum>c<C. \<Sum>s<N. (fin_val (references ! b ! c ! s)
                                      - fin_val (estimates ! b ! c ! s))\<^sup>2)"
    proof -
      have "(\<Sum>c<C. \<Sum>s<N. np_square (fsub (references ! b ! c ! s) (estimates ! b ! c ! s)))
          = (\<Sum>c<C. \<Sum>s<N. Fin ((fin_val (references ! b ! c ! s)
                                      - fin_val (estimates ! b ! c ! s))\<^sup>2))"
        by (intro sum.cong refl) (metis r [OF b] e [OF b] lessThan_iff np_square_Fin fsub_Fin)
      then show ?thesis by (simp only: sum_Fin)
    qed
    show ?thesis
      unfolding n d by (rule log_step) (simp_all add: sum_nonneg)
  qed
  show "sdr references estimates = Inr (map (\<lambda>b. Fin (10 * log 10
             (((\<Sum>c<C. \<Sum>s<N. (fin_val (references ! b ! c ! s))\<^sup>2) + delta)
              / ((\<Sum>c<C. \<Sum>s<N. (fin_val (references ! b ! c ! s)
                                      - fin_val (estimates ! b ! c ! s))\<^sup>2) + delta))))
             [0..<B])"
    unfolding g by (simp add: step)
qed

theorem sdr_formula_witness:
  "shape3 1 1 2 [[[Fin 1, Fin 2]]] \<and> shape3 1 1 2 [[[Fin 1, Fin 0]]]
   \<and> all_finite [[[Fin 1, Fin 2]]] \<and> all_finite [[[Fin 1, Fin 0]]]
   \<and> sdr [[[Fin 1, Fin 2]]] [[[Fin 1, Fin 0]]] = Inr [Fin (10 * log 10 ((5 + delta) / (4 + delta)))]"
proof -
  have s: "shape3 1 1 2 [[[Fin 1, Fin 2]]]" "shape3 1 1 2 [[[Fin 1, Fin 0]]]"
    by (simp_all add: shape3_def shape2_def)
  have f: "all_finite [[[Fin 1, Fin 2]]]" "all_finite [[[Fin 1, Fin 0]]]"
    by (simp_all add: all_finite_def)
  have two: "{..<2::nat} = {0, 1}" by auto
  have "sdr [[[Fin 1, Fin 2]]] [[[Fin 1, Fin 0]]] = Inr (map (\<lambda>b. Fin (10 * log 10
             (((\<Sum>c<1. \<Sum>s<2. (fin_val ([[[Fin 1, Fin 2]]] ! b ! c ! s))\<^sup>2) + delta)
              / ((\<Sum>c<1. \<Sum>s<2. (fin_val ([[[Fin 1, Fin 2]]] ! b ! c ! s)
                                      - fin_val ([[[Fin 1, Fin 0]]] ! b ! c ! s))\<^sup>2) + delta))))
             [0..<1])"
    using sdr_formula [OF s] f by blast
  then have "sdr [[[Fin 1, Fin 2]]] [[[Fin 1, Fin 0]]]
      = Inr [Fin (10 * log 10 ((5 + delta) / (4 + delta)))]"
    by (simp add: two)
  with s f show ?thesis by blast
qed




text \<open>
  Claim C8. For two signals of \<open>C\<close> channels with \<open>N1\<close> and \<open>N2\<close> samples,
  \<open>get_sdr\<close> is \<open>sdr\<close> of the prefixes of length \<open>min N1 N2\<close> of both, and it
  returns a value (no index leaves its range): the formula of the metric with the sums
  running over the first \<open>min N1 N2\<close> samples. With 100 and 97 samples, 97 are used.
\<close>

theorem get_sdr_trims:
  assumes "shape2 C N1 original_signal" "shape2 C N2 model_signal"
  shows "get_sdr original_signal model_signal
       = sdr [map (take (min N1 N2)) original_signal] [map (take (min N1 N2)) model_signal]
     \<and> get_sdr original_signal model_signal = Inr [fmul (Fin 10) (flog10 (fdiv
          ((\<Sum>c<C. \<Sum>s<min N1 N2. np_square (original_signal ! c ! s)) + Fin delta)
          ((\<Sum>c<C. \<Sum>s<min N1 N2. np_square (fsub (original_signal ! c ! s) (model_signal ! c ! s)))
             + Fin delta)))]"
proof -
  let ?n = "min N1 N2"
  let ?o = "map (take ?n) original_signal" and ?m = "map (take ?n) model_signal"
  have g: "get_sdr original_signal model_signal = sdr [?o] [?m]"
    by (rule get_sdr_min [OF assms])
  have so: "shape2 C ?n ?o" and sm: "shape2 C ?n ?m"
    using assms by (simp_all add: shape2_take)
  have "shape3 1 C ?n [?o]" "shape3 1 C ?n [?m]"
    using so sm by (simp_all add: shape3_def)
  then have "sdr [?o] [?m] = Inr (map (\<lambda>b. fmul (Fin 10) (flog10 (fdiv
             ((\<Sum>c<C. \<Sum>s<?n. np_square ([?o] ! b ! c ! s)) + Fin delta)
             ((\<Sum>c<C. \<Sum>s<?n. np_square (fsub ([?o] ! b ! c ! s) ([?m] ! b ! c ! s)))
                + Fin delta)))) [0..<1])"
    by (rule sdr_general)
  also have "\<dots> = Inr [fmul (Fin 10) (flog10 (fdiv
          ((\<Sum>c<C. \<Sum>s<?n. np_square (?o ! c ! s)) + Fin delta)
          ((\<Sum>c<C. \<Sum>s<?n. np_square (fsub (?o ! c ! s) (?m ! c ! s))) + Fin delta)))]"
    by simp
  also have "(\<Sum>c<C. \<Sum>s<?n. np_square (?o ! c ! s))
           = (\<Sum>c<C. \<Sum>s<?n. np_square (original_signal ! c ! s))"
    by (intro sum.cong refl) (simp add: nth_take_rows [OF assms(1)])
  also have "(\<Sum>c<C. \<Sum>s<?n. np_square (fsub (?o ! c ! s) (?m ! c ! s)))
           = (\<Sum>c<C. \<Sum>s<?n. np_square (fsub (original_signal ! c ! s) (model_signal ! c ! s)))"
    by (intro sum.cong refl) (simp add: nth_take_rows [OF assms(1)] nth_take_rows [OF assms(2)])
  finally show ?thesis using g by simp
qed

theorem get_sdr_trims_witness:
  "shape2 1 100 [replicate 100 (Fin 1)] \<and> shape2 1 97 [replicate 97 (Fin 1)]
   \<and> get_sdr [replicate 100 (Fin 1)] [replicate 97 (Fin 1)]
       = sdr [[replicate 97 (Fin 1)]] [[replicate 97 (Fin 1)]]
   \<and> get_sdr [replicate 100 (Fin 1)] [replicate 97 (Fin 1)]
       = Inr [Fin (10 * log 10 ((97 + delta) / delta))]"
proof -
  have s: "shape2 1 100 [replicate 100 (Fin 1)]" "shape2 1 97 [replicate 97 (Fin 1)]"
    by (simp_all add: shape2_def)
  have d: "0 < delta" by (rule delta_pos)
  have n: "(\<Sum>s<97::nat. np_square (Fin 1)) = Fin 97"
    by (simp add: np_square_Fin sum_Fin)
  have e: "(\<Sum>s<97::nat. np_square (fsub (Fin 1) (Fin 1))) = Fin 0"
    by (simp add: np_square_Fin fsub_Fin sum_Fin)
  note t = get_sdr_trims [OF s]
  have a: "get_sdr [replicate 100 (Fin 1)] [replicate 97 (Fin 1)]
       = sdr [[replicate 97 (Fin 1)]] [[replicate 97 (Fin 1)]]"
    using t [THEN conjunct1] by simp
  have b: "get_sdr [replicate 100 (Fin 1)] [replicate 97 (Fin 1)]
       = Inr [Fin (10 * log 10 ((97 + delta) / delta))]"
    using t [THEN conjunct2] d by (simp add: n e)
  from s a b show ?thesis by blast
qed

section \<open>The weight grid\<close>

text \<open>
  Claim C3. With the step 1 of the program, the weight pairs are the 11 pairs
  \<open>(w, 10 - w)\<close> for \<open>w = 0, \<dots>, 10\<close>: the components of every pair sum to 10, and
  the boundary pairs \<open>(0, 10)\<close> and \<open>(10, 0)\<close> are among them.
\<close>

theorem weight_combinations_grid:
  "\<exists>ws. weight_combinations = Inr ws \<and> ws = map (\<lambda>w. (real w, 10 - real w)) [0..<11]
     \<and> length ws = 11 \<and> (\<forall>(w1, w2) \<in> set ws. w1 + w2 = 10)
     \<and> (0, 10) \<in> set ws \<and> (10, 0) \<in> set ws"
proof -
  let ?ws = "map (\<lambda>w. (real w, 10 - real w)) [0..<11]"
  have a: "(0, 10) \<in> set ?ws"
    by (simp add: image_iff)
  have b: "(10, 0) \<in> set ?ws"
    by (simp add: image_iff)
  have c: "\<forall>(w1, w2) \<in> set ?ws. w1 + w2 = 10" by auto
  show ?thesis using weight_grid a b c by simp
qed

theorem weight_combinations_grid_witness:
  "\<exists>ws. weight_combinations = Inr ws \<and> (3, 7) \<in> set ws \<and> (3::real) + 7 = 10"
proof -
  from weight_combinations_grid obtain ws where
    w: "weight_combinations = Inr ws" "ws = map (\<lambda>w. (real w, 10 - real w)) [0..<11]"
      "\<forall>(w1, w2) \<in> set ws. w1 + w2 = 10" by blast
  have "(3, 7) \<in> set ws" unfolding w(2)
    by (simp add: image_iff)
  with w show ?thesis by auto
qed

text \<open>
  Claim C9. For every pair of the grid the divisor \<open>w1 + w2\<close> of the weighted average
  is 10, hence not zero: dividing a finite sample by it takes the ordinary branch of the
  division and gives the finite quotient.
\<close>

theorem grid_divisor_nonzero:
  "\<exists>ws. weight_combinations = Inr ws \<and>
     (\<forall>(w1, w2) \<in> set ws. weights_sum w1 w2 = 10 \<and> weights_sum w1 w2 \<noteq> 0
        \<and> (\<forall>x. fdiv (Fin x) (Fin (weights_sum w1 w2)) = Fin (x / 10)))"
proof -
  let ?ws = "map (\<lambda>w. (real w, 10 - real w)) [0..<11]"
  have "\<forall>(w1, w2) \<in> set ?ws. weights_sum w1 w2 = 10" by (auto simp: weights_sum_def)
  then have "\<forall>(w1, w2) \<in> set ?ws. weights_sum w1 w2 = 10 \<and> weights_sum w1 w2 \<noteq> 0
        \<and> (\<forall>x. fdiv (Fin x) (Fin (weights_sum w1 w2)) = Fin (x / 10))"
    by (auto simp: weights_sum_def)
  then show ?thesis using weight_grid by blast
qed

theorem grid_divisor_nonzero_witness:
  "\<exists>ws. weight_combinations = Inr ws \<and> (0, 10) \<in> set ws \<and> weights_sum 0 10 = 10
     \<and> fdiv (Fin 5) (Fin (weights_sum 0 10)) = Fin (5 / 10)"
proof -
  from grid_divisor_nonzero obtain ws where
    w: "weight_combinations = Inr ws"
      "\<forall>(w1, w2) \<in> set ws. weights_sum w1 w2 = 10 \<and> weights_sum w1 w2 \<noteq> 0
        \<and> (\<forall>x. fdiv (Fin x) (Fin (weights_sum w1 w2)) = Fin (x / 10))" by blast
  have "ws = map (\<lambda>w. (real w, 10 - real w)) [0..<11]"
    by (rule Inr_inject [OF trans [OF sym [OF w(1)] weight_grid]])
  then have "(0, 10) \<in> set ws"
    by (simp add: image_iff)
  with w show ?thesis by fastforce
qed

section \<open>The track evaluator\<close>

text \<open>
  Claim C2. For a weight pair \<open>(w1, w2)\<close> and the signals \<open>a\<close>, \<open>b\<close> of the two
  models, the candidate is built so: a low-pass filter is designed by \<open>butter\<close> with
  order \<open>6 // 2\<close> at the cutoff 10000 Hz, normalised by half the sample rate, and applied
  by \<open>sosfiltfilt\<close> to the normalised weighted average \<open>(w1 * a + w2 * b) / (w1 + w2)\<close>;
  its result \<open>low\<close>, and only it, is multiplied by 1.01055; a high-pass filter of the
  same order and cutoff is applied to \<open>b\<close> alone, giving \<open>high\<close>; the candidate is the
  sum of the two, sample by sample.
\<close>

theorem candidate_structure:
  assumes ms: "model_signals = a # b # others"
    and sh: "shape2 C N a" "shape2 C N b"
    and sr: "sr1 \<noteq> 0"
    and bl: "butter sp 3 (10000 / (0.5 * real_of_int sr1)) lowpass = Inr ba_low"
    and tl: "tf2sos sp ba_low = Inr sos_low"
    and fl: "sosfiltfilt sp sos_low
               (map (\<lambda>c. map (\<lambda>i. fdiv (fmul (Fin w1) (a ! c ! i) + fmul (Fin w2) (b ! c ! i))
                                      (Fin (w1 + w2))) [0..<N]) [0..<C])
             = Inr low"
    and bh: "butter sp 3 (10000 / (0.5 * real_of_int sr1)) highpass = Inr ba_high"
    and th: "tf2sos sp ba_high = Inr sos_high"
    and fh: "sosfiltfilt sp sos_high b = Inr high"
    and fsh: "shape2 C N low" "shape2 C N high"
  shows "candidate sp w1 w2 model_signals sr1
       = Inr (map (\<lambda>c. map (\<lambda>i. fmul (low ! c ! i) (Fin (101055 / 100000)) + high ! c ! i)
                          [0..<N]) [0..<C])"
proof -
  have i0: "py_index model_signals 0 = Inr a" and i1: "py_index model_signals 1 = Inr b"
    by (simp_all add: ms py_index_def)
  have s: "np_op2 (+) (np_scale w1 a) (np_scale w2 b)
         = Inr (map2 (map2 (+)) (np_scale w1 a) (np_scale w2 b))"
    unfolding np_scale_def by (rule np_op2_shape [OF shape2_map [OF sh(1)] shape2_map [OF sh(2)]])
  have bl': "np_div_scalar (map2 (map2 (+)) (np_scale w1 a) (np_scale w2 b)) (weights_sum w1 w2)
          = map (\<lambda>c. map (\<lambda>i. fdiv (fmul (Fin w1) (a ! c ! i) + fmul (Fin w2) (b ! c ! i))
                                      (Fin (w1 + w2))) [0..<N]) [0..<C]"
  proof (rule explicit_rows)
    show "shape2 C N (np_div_scalar (map2 (map2 (+)) (np_scale w1 a) (np_scale w2 b))
                        (weights_sum w1 w2))"
      unfolding np_div_scalar_def np_scale_def
      by (rule shape2_map [OF shape2_map2 [OF shape2_map [OF sh(1)] shape2_map [OF sh(2)]]])
    fix c i assume "c < C" "i < N"
    then show "np_div_scalar (map2 (map2 (+)) (np_scale w1 a) (np_scale w2 b))
                 (weights_sum w1 w2) ! c ! i
             = fdiv (fmul (Fin w1) (a ! c ! i) + fmul (Fin w2) (b ! c ! i)) (Fin (w1 + w2))"
      using sh by (simp add: np_div_scalar_def np_scale_def weights_sum_def shape2_def
          list_all_length)
  qed
  have six: "(6::int) div 2 = 3" by simp
  have lp: "lr_filter sp
               (map (\<lambda>c. map (\<lambda>i. fdiv (fmul (Fin w1) (a ! c ! i) + fmul (Fin w2) (b ! c ! i))
                                      (Fin (w1 + w2))) [0..<N]) [0..<C])
               10000 lowpass 6 sr1 = Inr low"
    using lr_filter_calls [OF sr, of sp 6 10000 lowpass ba_low sos_low] bl tl fl
    by (simp only: six)
  have hp: "lr_filter sp b 10000 highpass 6 sr1 = Inr high"
    using lr_filter_calls [OF sr, of sp 6 10000 highpass ba_high sos_high] bh th fh
    by (simp only: six)
  have ad: "np_op2 (+) (np_mul_scalar low gain) high
         = Inr (map2 (map2 (+)) (np_mul_scalar low gain) high)"
    unfolding np_mul_scalar_def by (rule np_op2_shape [OF shape2_map [OF fsh(1)] fsh(2)])
  have fin: "map2 (map2 (+)) (np_mul_scalar low gain) high
         = map (\<lambda>c. map (\<lambda>i. fmul (low ! c ! i) (Fin (101055 / 100000)) + high ! c ! i)
                          [0..<N]) [0..<C]"
  proof (rule explicit_rows)
    show "shape2 C N (map2 (map2 (+)) (np_mul_scalar low gain) high)"
      unfolding np_mul_scalar_def by (rule shape2_map2 [OF shape2_map [OF fsh(1)] fsh(2)])
    fix c i assume "c < C" "i < N"
    then show "map2 (map2 (+)) (np_mul_scalar low gain) high ! c ! i
             = fmul (low ! c ! i) (Fin (101055 / 100000)) + high ! c ! i"
      using fsh by (simp add: np_mul_scalar_def gain_def shape2_def list_all_length)
  qed
  show ?thesis
    by (simp only: candidate_def i0 i1 s bl' lp hp ad fin sum.case Let_def)
qed

theorem candidate_structure_witness:
  "candidate
      \<lparr>butter = (\<lambda>n w t. if 0 < w \<and> w < 1 then Inr (n, t) else Inl (ValueError ''Wn'')),
       tf2sos = (\<lambda>ba. Inr ba),
       sosfiltfilt = (\<lambda>sos x. if sos = (3, lowpass) then Inr (map (map (fmul (Fin (1 / 2)))) x)
                               else if sos = (3, highpass) then Inr (map (map (fmul (Fin (1 / 4)))) x)
                               else Inl (ValueError ''sos''))\<rparr>
      3 7 [[[Fin 1, Fin 2]], [[Fin 4, Fin 8]]] 44100
   = Inr [[Fin (31 / 20 * (101055 / 100000) + 1), Fin (31 / 10 * (101055 / 100000) + 2)]]"
proof -
  let ?sp = "\<lparr>butter = (\<lambda>n w t. if 0 < w \<and> w < 1 then Inr (n, t) else Inl (ValueError ''Wn'')),
       tf2sos = (\<lambda>ba. Inr ba),
       sosfiltfilt = (\<lambda>sos x. if sos = (3, lowpass) then Inr (map (map (fmul (Fin (1 / 2)))) x)
                               else if sos = (3, highpass) then Inr (map (map (fmul (Fin (1 / 4)))) x)
                               else Inl (ValueError ''sos''))\<rparr>
               :: (int \<times> filter_type, int \<times> filter_type) scipy"
  let ?a = "[[Fin 1, Fin 2]]" and ?b = "[[Fin 4, Fin 8]]"
  let ?low = "[[Fin (31 / 20), Fin (31 / 10)]]" and ?high = "[[Fin 1, Fin 2]]"
  have sh: "shape2 1 2 ?a" "shape2 1 2 ?b" "shape2 1 2 ?low" "shape2 1 2 ?high"
    by (simp_all add: shape2_def)
  have two: "[0..<2] = [0, 1]" by (simp add: upt_rec)
  have sr: "(44100::int) \<noteq> 0" by simp
  have bl: "butter ?sp 3 (10000 / (0.5 * real_of_int 44100)) lowpass = Inr (3, lowpass)"
    by simp
  have bh: "butter ?sp 3 (10000 / (0.5 * real_of_int 44100)) highpass = Inr (3, highpass)"
    by simp
  have tl: "tf2sos ?sp (3, lowpass) = Inr (3, lowpass)" by simp
  have th: "tf2sos ?sp (3, highpass) = Inr (3, highpass)" by simp
  have fl: "sosfiltfilt ?sp (3, lowpass)
               (map (\<lambda>c. map (\<lambda>i. fdiv (fmul (Fin 3) (?a ! c ! i) + fmul (Fin 7) (?b ! c ! i))
                                      (Fin (3 + 7))) [0..<2]) [0..<1])
             = Inr ?low"
    by (simp add: two)
  have fh: "sosfiltfilt ?sp (3, highpass) ?b = Inr ?high" by simp
  show ?thesis
    using candidate_structure [OF refl sh(1,2) sr bl tl fl bh th fh sh(3,4)] by (simp add: two)
qed

text \<open>
  Claim C4. A track whose files carry more than one sample rate should raise the error
  that lists the rates. The program forms the sum of the two original signals before it
  compares the rates: for an \<open>original_vocals.wav\<close> of three frames at 44100 Hz and an
  \<open>original_other.wav\<close> of two frames at 48000 Hz that sum already raises, numpy being
  unable to broadcast the shapes \<open>(2, 3)\<close> and \<open>(2, 2)\<close>, and the check of the rates
  is never reached.
\<close>

theorem sample_rate_check_after_mix:
  "process_track
     (\<lambda>d t f. if f = ''original_vocals.wav''
                then Inr ([[Fin 0, Fin 0], [Fin 0, Fin 0], [Fin 0, Fin 0]], 44100)
              else if f = ''original_other.wav''
                then Inr ([[Fin 0, Fin 0], [Fin 0, Fin 0]], 48000)
              else Inr ([[Fin 0, Fin 0], [Fin 0, Fin 0], [Fin 0, Fin 0]], 44100))
     \<lparr>butter = (\<lambda>n w t. Inr ()), tf2sos = (\<lambda>ba. Inr ()), sosfiltfilt = (\<lambda>sos x. Inr x)\<rparr>
     ''songs'' ''track'' [(0, 10)] [''a'', ''b'']
   = Inl BroadcastError"
  by (simp add: process_track_def np_op2_def np_op1_def broadcast_def)

section \<open>The aggregator\<close>




text \<open>
  Claim C6, as the program has it. For a non-empty list of observations the dictionary
  holds every observed weight pair once, with the values recorded for it, and the average
  computed for a pair is their sum in \<open>float64\<close>, from the left, divided by their number.
  The pair selected is the first one, in the order of iteration over the dictionary, whose
  average is greater than minus infinity and exceeded by no other average: every earlier
  average is strictly smaller or NaN, so a later equal average never displaces it. When
  no average is greater than minus infinity, no pair is selected, and minus infinity with
  the initial pair \<open>(0, 0)\<close> remains.
\<close>

theorem best_combination_first_maximum:
  assumes "obs \<noteq> []"
  shows "accumulate obs \<noteq> []
       \<and> distinct (map fst (accumulate obs))
       \<and> set (map fst (accumulate obs)) = obs_key ` set obs
       \<and> (\<forall>(k, vs) \<in> set (accumulate obs).
             vs = recorded obs k
           \<and> average vs = Inr (fdiv64 (py_sum (recorded obs k))
                                  (Fin (real (length (recorded obs k))))))
       \<and> ((best_combination obs = Inr (NInf, (0, 0))
             \<and> (\<forall>j<length (accumulate obs). \<not> fgt (item_avg (accumulate obs) j) NInf))
          \<or> (\<exists>i<length (accumulate obs).
                best_combination obs
                  = Inr (item_avg (accumulate obs) i, fst (accumulate obs ! i))
              \<and> fgt (item_avg (accumulate obs) i) NInf
              \<and> (\<forall>j<length (accumulate obs).
                    \<not> fgt (item_avg (accumulate obs) j) (item_avg (accumulate obs) i))
              \<and> (\<forall>j<i. fgt (item_avg (accumulate obs) i) (item_avg (accumulate obs) j)
                         \<or> item_avg (accumulate obs) j = NaN)))"
proof -
  let ?items = "accumulate obs"
  have it: "vs = recorded obs k \<and> vs \<noteq> []" if "(k, vs) \<in> set ?items" for k vs
    using that by (rule accumulate_items(3))
  have 3: "\<forall>(k, vs) \<in> set ?items.
             vs = recorded obs k
           \<and> average vs = Inr (fdiv64 (py_sum (recorded obs k))
                                  (Fin (real (length (recorded obs k)))))"
  proof (clarify, intro conjI)
    fix k vs assume m: "(k, vs) \<in> set ?items"
    show "vs = recorded obs k" using it [OF m] by simp
    show "average vs = Inr (fdiv64 (py_sum (recorded obs k))
                                  (Fin (real (length (recorded obs k)))))"
      using it [OF m] by (auto simp: average_def float_mean_def)
  qed
  have pre: "\<forall>x \<in> set ?items. snd x \<noteq> []"
  proof
    fix x assume x: "x \<in> set ?items"
    obtain k vs where kv: "x = (k, vs)" by (cases x)
    from x kv have m: "(k, vs) \<in> set ?items" by simp
    show "snd x \<noteq> []" using it [OF m] kv by auto
  qed
  from select_best_general [OF pre, of "(NInf, (0, 0))"]
  have 4: "(best_combination obs = Inr (NInf, (0, 0))
             \<and> (\<forall>j<length ?items. \<not> fgt (item_avg ?items j) NInf))
          \<or> (\<exists>i<length ?items.
                best_combination obs = Inr (item_avg ?items i, fst (?items ! i))
              \<and> fgt (item_avg ?items i) NInf
              \<and> (\<forall>j<length ?items. \<not> fgt (item_avg ?items j) (item_avg ?items i))
              \<and> (\<forall>j<i. fgt (item_avg ?items i) (item_avg ?items j)
                         \<or> item_avg ?items j = NaN))"
    unfolding best_combination_def by (simp only: fst_conv)
  have "set (map fst ?items) \<noteq> {}"
    using assms by (simp add: accumulate_items(2) del: set_map)
  then have 0: "?items \<noteq> []" by auto
  show ?thesis
    using 0 accumulate_items(1) [of obs] accumulate_items(2) [of obs] 3 4 by blast
qed

theorem best_combination_first_maximum_witness:
  "accumulate [(3, 7, Fin 1), (5, 5, Fin 2), (3, 7, Fin 3), (4, 6, Fin 2)]
       = [((3, 7), [Fin 1, Fin 3]), ((5, 5), [Fin 2]), ((4, 6), [Fin 2])]
   \<and> average [Fin 1, Fin 3] = Inr (Fin 2) \<and> average [Fin 2] = Inr (Fin 2)
   \<and> best_combination [(3, 7, Fin 1), (5, 5, Fin 2), (3, 7, Fin 3), (4, 6, Fin 2)] = Inr (Fin 2, (3, 7))"
proof -
  let ?obs = "[(3, 7, Fin 1), (5, 5, Fin 2), (3, 7, Fin 3), (4::real, 6::real, Fin 2)]"
  let ?items = "[((3::real, 7::real), [Fin 1, Fin 3]), ((5, 5), [Fin 2]), ((4, 6), [Fin 2])]"
  have h1: "?obs \<noteq> []" by simp
  have acc: "accumulate ?obs = ?items"
    by (simp add: accumulate_def record_observation_def)
  have "py_sum [Fin 1, Fin 3] = Fin 4"
    unfolding py_sum_def by (simp only: foldl.simps fadd64_0_1 fadd64_1_3)
  moreover have "real (length [Fin 1, Fin 3]) = 2" by simp
  ultimately have f1: "float_mean [Fin 1, Fin 3] = Fin 2"
    unfolding float_mean_def by (simp only: fdiv64_4_2)
  have "py_sum [Fin 2] = Fin 2"
    unfolding py_sum_def by (simp only: foldl.simps fadd64_0_2)
  moreover have "real (length [Fin 2]) = 1" by simp
  ultimately have f2: "float_mean [Fin 2] = Fin 2"
    unfolding float_mean_def by (simp only: fdiv64_2_1)
  have m: "item_avg ?items 0 = Fin 2" "item_avg ?items 1 = Fin 2" "item_avg ?items 2 = Fin 2"
    by (simp_all add: item_avg_def f1 f2)
  have av: "average [Fin 1, Fin 3] = Inr (Fin 2)" "average [Fin 2] = Inr (Fin 2)"
    by (simp_all add: average_def f1 f2)
  from best_combination_first_maximum [OF h1]
  consider (none) "\<forall>j<length ?items. \<not> fgt (item_avg ?items j) NInf"
    | (some) i where "i < length ?items"
       "best_combination ?obs = Inr (item_avg ?items i, fst (?items ! i))"
       "\<forall>j<i. fgt (item_avg ?items i) (item_avg ?items j) \<or> item_avg ?items j = NaN"
    unfolding acc by blast
  then have "best_combination ?obs = Inr (Fin 2, (3, 7))"
  proof cases
    case none
    then have "\<not> fgt (item_avg ?items 0) NInf" by simp
    then show ?thesis by (simp add: m)
  next
    case some
    have "i = 0"
    proof (rule ccontr)
      assume "i \<noteq> 0"
      then have "fgt (item_avg ?items i) (item_avg ?items 0) \<or> item_avg ?items 0 = NaN"
        using some(3) by simp
      moreover have "i = 1 \<or> i = 2" using some(1) \<open>i \<noteq> 0\<close> by auto
      ultimately show False using m by auto
    qed
    then show ?thesis using some(2) m(1) by simp
  qed
  with acc av show ?thesis by blast
qed

text \<open>
  A pair of maximal mean is not always selected: the single observation of the pair
  \<open>(3, 7)\<close> with the value NaN has the average NaN, which no comparison finds greater
  than minus infinity, and the pair reported is \<open>(0, 0)\<close>.
\<close>

theorem best_combination_counterexample:
  "accumulate [(3, 7, NaN)] = [((3, 7), [NaN])]
   \<and> average [NaN] = Inr NaN
   \<and> best_combination [(3, 7, NaN)] = Inr (NInf, (0, 0))"
  by (simp add: accumulate_def record_observation_def best_combination_def average_def
      float_mean_def py_sum_def)

section \<open>A run without tracks\<close>

text \<open>
  Claim C10. When no track is discovered, no observation is collected and the run does
  not fail (two model names being given, as the last line of the program reads both): it
  reports minus infinity as the best average and the initial weight pair \<open>(0, 0)\<close>,
  which is not a pair of the grid.
\<close>

theorem empty_track_set:
  assumes "2 \<le> length models"
  shows "main rd sp [] models
           = Inr \<lparr>best_avg_sdr = NInf, model_a = models ! 0, model_b = models ! 1,
                  best_weights = (0, 0)\<rparr>
         \<and> best_combination [] = Inr (NInf, (0, 0))
         \<and> (\<exists>ws. weight_combinations = Inr ws \<and> (0, 0) \<notin> set ws)"
proof -
  have b: "best_combination [] = Inr (NInf, (0, 0))"
    by (simp add: best_combination_def accumulate_def)
  have "(0, 0) \<notin> set (map (\<lambda>w. (real w, 10 - real w)) [0..<11])" by auto
  then have g: "\<exists>ws. weight_combinations = Inr ws \<and> (0, 0) \<notin> set ws"
    using weight_grid by blast
  have "main rd sp [] models
           = Inr \<lparr>best_avg_sdr = NInf, model_a = models ! 0, model_b = models ! 1,
                  best_weights = (0, 0)\<rparr>"
    using assms by (auto simp add: main_def weight_grid report_best_def b py_index_def)
  with b g show ?thesis by blast
qed

theorem empty_track_set_witness:
  "main (\<lambda>d t f. Inl (ReadError f))
        \<lparr>butter = (\<lambda>n w t. Inr ()), tf2sos = (\<lambda>ba. Inr ()), sosfiltfilt = (\<lambda>sos x. Inr x)\<rparr>
        [] [''a'', ''b'']
     = Inr \<lparr>best_avg_sdr = NInf, model_a = ''a'', model_b = ''b'', best_weights = (0, 0)\<rparr>"
  using empty_track_set [of "[''a'', ''b'']" "\<lambda>d t f. Inl (ReadError f)"
      "\<lparr>butter = (\<lambda>n w t. Inr ()), tf2sos = (\<lambda>ba. Inr ()), sosfiltfilt = (\<lambda>sos x. Inr x)\<rparr>"]
  by simp

end
